theory Spec2Isabelle
  imports Main "HOL-Library.Sublist"
begin

section \<open>Strings and numbers of the host language\<close>

text \<open>
  Strings are byte lists holding the UTF-8 encoding of the source's text; every
  character outside ASCII is one or more bytes of value 128 or more, so the two regular
  expressions of \<open>parseAmountInput\<close>, which keep or drop single ASCII characters, act on
  the bytes exactly as they act on the source's code units.

  A value of the source's type \<open>number\<close> is an IEEE double. The numbers that the code
  under study computes are integer-valued, infinite or not-a-number, so \<open>Num\<close> carries
  the integer that a finite double denotes.
\<close>

datatype jsnum = Num int | PosInf | NegInf | NaN

definition isNaN :: "jsnum \<Rightarrow> bool" where
  "isNaN x = (x = NaN)"

text \<open>Number of binary digits of a natural number.\<close>

fun bitlen :: "nat \<Rightarrow> nat" where
  "bitlen n = (if n = 0 then 0 else Suc (bitlen (n div 2)))"

declare bitlen.simps [simp del]

text \<open>
  The double nearest to a natural number (round to nearest, ties to even): numbers below
  \<open>2 ^ 53\<close> are doubles themselves; a longer number keeps its 53 leading bits, rounded;
  a result of \<open>2 ^ 1024\<close> or more is \<open>Infinity\<close>.
\<close>

definition to_double :: "nat \<Rightarrow> jsnum" where
  "to_double n =
     (if n < 2 ^ 53 then Num (int n)
      else
        let e = bitlen n - 53;
            q = n div 2 ^ e;
            r = n mod 2 ^ e;
            h = 2 ^ (e - 1);
            q' = (if h < r \<or> (r = h \<and> odd q) then q + 1 else q)
        in if q' * 2 ^ e < 2 ^ 1024 then Num (int (q' * 2 ^ e)) else PosInf)"

definition is_digit :: "char \<Rightarrow> bool" where
  "is_digit c = (48 \<le> (of_char c :: nat) \<and> (of_char c :: nat) \<le> 57)"

definition digit_val :: "char \<Rightarrow> nat" where
  "digit_val c = of_char c - 48"

definition digit_char :: "nat \<Rightarrow> char" where
  "digit_char d = char_of (48 + d)"

text \<open>The value of a string of decimal digits, most significant digit first.\<close>

definition dec_value :: "string \<Rightarrow> nat" where
  "dec_value ds = foldl (\<lambda>a c. 10 * a + digit_val c) 0 ds"

text \<open>The decimal digits of a natural number.\<close>

fun digits10 :: "nat \<Rightarrow> string" where
  "digits10 n = (if n < 10 then [digit_char n] else digits10 (n div 10) @ [digit_char (n mod 10)])"

declare digits10.simps [simp del]

text \<open>
  \<open>parseInt(s, 10)\<close>: leading white space is skipped, a sign is read, the longest run of
  decimal digits that follows is the number, and no digit at all gives \<open>NaN\<close>. The
  language lets an implementation read every digit after the twentieth significant one
  as 0, which can only lower the number; here all digits are read.
\<close>

definition is_space :: "char \<Rightarrow> bool" where
  "is_space c = (c \<in> set [CHR 0x20, CHR 0x09, CHR 0x0A, CHR 0x0B, CHR 0x0C, CHR 0x0D])"

definition negate :: "jsnum \<Rightarrow> jsnum" where
  "negate x = (case x of Num n \<Rightarrow> Num (- n) | PosInf \<Rightarrow> NegInf | NegInf \<Rightarrow> PosInf | NaN \<Rightarrow> NaN)"

definition parseInt10 :: "string \<Rightarrow> jsnum" where
  "parseInt10 s =
     (let s1 = dropWhile is_space s;
          neg = (s1 \<noteq> [] \<and> hd s1 = CHR ''-'');
          s2 = (if s1 \<noteq> [] \<and> (hd s1 = CHR ''-'' \<or> hd s1 = CHR ''+'') then tl s1 else s1);
          ds = takeWhile is_digit s2
      in if ds = [] then NaN
         else if neg then negate (to_double (dec_value ds))
         else to_double (dec_value ds))"

text \<open>
  The digits that the engine prints for a double are the shortest ones that read back as
  that double, padded with zeros: of the decimal numbers with the fewest significant
  digits that \<open>to_double\<close> maps to \<open>n\<close>, the one nearest to \<open>n\<close>, and on a tie the one whose
  last significant digit is even. With \<open>k\<close> trailing zeros the two candidates are the
  multiples of \<open>10 ^ k\<close> on either side of \<open>n\<close>; the search starts at one significant
  digit and ends, with no zero left to pad, at \<open>n\<close> itself.
\<close>

fun shortest_from :: "nat \<Rightarrow> nat \<Rightarrow> nat" where
  "shortest_from n 0 = n"
| "shortest_from n (Suc k) =
     (let p = 10 ^ Suc k;
          lo = (n div p) * p;
          hi = lo + p;
          lo_ok = (to_double lo = Num (int n));
          hi_ok = (to_double hi = Num (int n))
      in if lo_ok \<and> hi_ok
         then (if n - lo < hi - n then lo
               else if hi - n < n - lo then hi
               else if even (n div p) then lo else hi)
         else if lo_ok then lo
         else if hi_ok then hi
         else shortest_from n k)"

definition shortest_decimal :: "nat \<Rightarrow> nat" where
  "shortest_decimal n = shortest_from n (length (digits10 n) - 1)"

text \<open>
  \<open>Number.prototype.toLocaleString('vi-VN')\<close> on the numbers of the model: the digits that
  the engine prints, in groups of three from the right, separated by full stops.
\<close>

fun grp :: "string \<Rightarrow> string" where
  "grp (a # b # c # d # rest) = a # b # c # CHR ''.'' # grp (d # rest)"
| "grp xs = xs"

definition group3 :: "string \<Rightarrow> string" where
  "group3 ds = rev (grp (rev ds))"

definition toLocaleString_vi :: "jsnum \<Rightarrow> string" where
  "toLocaleString_vi x =
     (case x of
        Num n \<Rightarrow> (if n < 0 then CHR ''-'' # group3 (digits10 (shortest_decimal (nat (- n))))
                  else group3 (digits10 (shortest_decimal (nat n))))
      | PosInf \<Rightarrow> [CHR 0xE2, CHR 0x88, CHR 0x9E]
      | NegInf \<Rightarrow> CHR ''-'' # [CHR 0xE2, CHR 0x88, CHR 0x9E]
      | NaN \<Rightarrow> ''NaN'')"

section \<open>The amount field\<close>

definition formatAmountInput :: "jsnum \<Rightarrow> string" where
  "formatAmountInput amount = (if amount = Num 0 then [] else toLocaleString_vi amount)"

definition parseAmountInput :: "string \<Rightarrow> jsnum" where
  "parseAmountInput v =
     (let cleanValue = filter is_digit (filter (\<lambda>c. c \<noteq> CHR ''.'') v);
          num = parseInt10 cleanValue
      in if isNaN num then Num 0 else num)"

section \<open>The ledger document\<close>

record TaxPayerInfo =
  name :: string
  address :: string
  taxId :: string
  location :: string
  period :: string

record Transaction =
  id_tx :: string
  date :: string
  description :: string
  amount :: jsnum

record S1aFormState =
  info :: TaxPayerInfo
  transactions :: "Transaction list"

definition SAMPLE_DATA :: S1aFormState where
  "SAMPLE_DATA =
     \<lparr>info =
        \<lparr>name = ''Nguy'' @ [CHR 0xE1, CHR 0xBB, CHR 0x85] @ ''n V'' @ [CHR 0xC4, CHR 0x83] @ ''n A'',
         address = ''123 '' @ [CHR 0xC4, CHR 0x90, CHR 0xC6, CHR 0xB0, CHR 0xE1, CHR 0xBB, CHR 0x9D]
           @ ''ng L'' @ [CHR 0xC3, CHR 0xA1] @ ''ng, H'' @ [CHR 0xC3, CHR 0xA0] @ '' N''
           @ [CHR 0xE1, CHR 0xBB, CHR 0x99] @ ''i'',
         taxId = ''8000123456'',
         location = ''C'' @ [CHR 0xE1, CHR 0xBB, CHR 0xAD] @ ''a h'' @ [CHR 0xC3, CHR 0xA0] @ ''ng T''
           @ [CHR 0xE1, CHR 0xBA, CHR 0xA1] @ ''p h'' @ [CHR 0xC3, CHR 0xB3] @ ''a S''
           @ [CHR 0xE1, CHR 0xBB, CHR 0x91] @ '' 1'',
         period = ''Th'' @ [CHR 0xC3, CHR 0xA1] @ ''ng 10/2023''\<rparr>,
      transactions =
        [\<lparr>id_tx = ''1'', date = ''01/10/2023'',
          description = ''B'' @ [CHR 0xC3, CHR 0xA1] @ ''n h'' @ [CHR 0xC3, CHR 0xA0] @ ''ng t''
            @ [CHR 0xE1, CHR 0xBA, CHR 0xA1] @ ''p h'' @ [CHR 0xC3, CHR 0xB3] @ ''a l''
            @ [CHR 0xE1, CHR 0xBA, CHR 0xBB],
          amount = Num 2500000\<rparr>,
         \<lparr>id_tx = ''2'', date = ''02/10/2023'',
          description = ''Cung c'' @ [CHR 0xE1, CHR 0xBA, CHR 0xA5] @ ''p d''
            @ [CHR 0xE1, CHR 0xBB, CHR 0x8B] @ ''ch v'' @ [CHR 0xE1, CHR 0xBB, CHR 0xA5]
            @ '' giao h'' @ [CHR 0xC3, CHR 0xA0] @ ''ng'',
          amount = Num 500000\<rparr>]\<rparr>"

text \<open>The keys of \<open>TaxPayerInfo\<close>, and the string that each key is at run time.\<close>

datatype info_key = Name | Address | TaxId | Location | Period

fun key_name :: "info_key \<Rightarrow> string" where
  "key_name Name = ''name''"
| "key_name Address = ''address''"
| "key_name TaxId = ''taxId''"
| "key_name Location = ''location''"
| "key_name Period = ''period''"

fun set_info :: "info_key \<Rightarrow> string \<Rightarrow> TaxPayerInfo \<Rightarrow> TaxPayerInfo" where
  "set_info Name v i = i\<lparr>name := v\<rparr>"
| "set_info Address v i = i\<lparr>address := v\<rparr>"
| "set_info TaxId v i = i\<lparr>taxId := v\<rparr>"
| "set_info Location v i = i\<lparr>location := v\<rparr>"
| "set_info Period v i = i\<lparr>period := v\<rparr>"

text \<open>
  \<open>updateTransaction\<close> takes a key of \<open>Transaction\<close> and a string or a number. The pairs
  of a key and a value of that key's declared type are the constructors below; a pair
  that breaks the declared type of the field has no counterpart in the typed record.
\<close>

datatype trans_update = SetId string | SetDate string | SetDescription string | SetAmount jsnum

fun set_trans :: "trans_update \<Rightarrow> Transaction \<Rightarrow> Transaction" where
  "set_trans (SetId v) t = t\<lparr>id_tx := v\<rparr>"
| "set_trans (SetDate v) t = t\<lparr>date := v\<rparr>"
| "set_trans (SetDescription v) t = t\<lparr>description := v\<rparr>"
| "set_trans (SetAmount v) t = t\<lparr>amount := v\<rparr>"

text \<open>The functions \<open>prev => ...\<close> that the handlers pass to \<open>setData\<close>.\<close>

definition handleInfoChange_upd :: "info_key \<Rightarrow> string \<Rightarrow> S1aFormState \<Rightarrow> S1aFormState" where
  "handleInfoChange_upd field v prev = prev\<lparr>info := set_info field v (info prev)\<rparr>"

definition append_upd :: "Transaction \<Rightarrow> S1aFormState \<Rightarrow> S1aFormState" where
  "append_upd newTrans prev = prev\<lparr>transactions := transactions prev @ [newTrans]\<rparr>"

definition updateTransaction_upd :: "string \<Rightarrow> trans_update \<Rightarrow> S1aFormState \<Rightarrow> S1aFormState" where
  "updateTransaction_upd i u prev =
     prev\<lparr>transactions := map (\<lambda>t. if id_tx t = i then set_trans u t else t) (transactions prev)\<rparr>"

definition removeTransaction_upd :: "string \<Rightarrow> S1aFormState \<Rightarrow> S1aFormState" where
  "removeTransaction_upd i prev =
     prev\<lparr>transactions := filter (\<lambda>t. id_tx t \<noteq> i) (transactions prev)\<rparr>"

section \<open>The component state\<close>

text \<open>
  What a failed call throws: an object, of which the handlers read only the \<open>message\<close>,
  which it may lack.
\<close>

datatype thrown = Thrown (message: "string option")

text \<open>What \<open>parseTransactionFromAudio\<close> resolves to: each field may be missing.\<close>

record parsed =
  p_date :: "string option"
  p_description :: "string option"
  p_amount :: "jsnum option"

datatype capture_target = InfoField info_key | TransDesc string | NewTransaction

datatype timer_action = ClearFeedback

datatype db_call = LoadFromDB | SaveToDB S1aFormState | ClearDB bool

text \<open>
  The state variables of \<open>App\<close> (the view switch apart, which no handler below reads),
  and what the component has set going outside itself:
  \<^item> \<open>data_ref\<close> names the object that \<open>data\<close> holds: 0 is the constant \<open>SAMPLE_DATA\<close>,
    every object built by a handler or read from the store gets the next unused number
    \<open>next_ref\<close>. React compares states and effect dependencies by object identity;
  \<^item> \<open>timers\<close> are the pending \<open>setTimeout\<close> calls, with their delay in milliseconds;
  \<^item> \<open>calls\<close> are the transcription calls that have not returned yet;
  \<^item> \<open>load_pending\<close> says that \<open>loadFromDB\<close> has not returned yet;
  \<^item> \<open>db_calls\<close> are the calls made to the persistence store, oldest first; \<open>ClearDB\<close>
    carries whether the store carried it out.
\<close>

record app_state =
  data :: S1aFormState
  data_ref :: nat
  next_ref :: nat
  isLoaded :: bool
  isProcessingAI :: bool
  processingField :: "string option"
  aiFeedback :: "string option"
  showResetConfirm :: bool
  apiKeyError :: bool
  timers :: "(nat \<times> timer_action) list"
  calls :: "capture_target list"
  load_pending :: bool
  db_calls :: "db_call list"

text \<open>\<open>setData(prev => f(prev))\<close> stores a new object.\<close>

definition setData_upd :: "(S1aFormState \<Rightarrow> S1aFormState) \<Rightarrow> app_state \<Rightarrow> app_state" where
  "setData_upd f s = s\<lparr>data := f (data s), data_ref := next_ref s, next_ref := Suc (next_ref s)\<rparr>"

text \<open>\<open>setData(savedData)\<close> stores the object read from the store.\<close>

definition setData_saved :: "S1aFormState \<Rightarrow> app_state \<Rightarrow> app_state" where
  "setData_saved d s = s\<lparr>data := d, data_ref := next_ref s, next_ref := Suc (next_ref s)\<rparr>"

text \<open>\<open>setData(SAMPLE_DATA)\<close> stores the constant itself.\<close>

definition setData_SAMPLE :: "app_state \<Rightarrow> app_state" where
  "setData_SAMPLE s = s\<lparr>data := SAMPLE_DATA, data_ref := 0\<rparr>"

text \<open>
  The state after the component has mounted: the first effect has called \<open>initData\<close>,
  which has called \<open>loadFromDB\<close> and waits; the second effect has returned at once, since
  \<open>isLoaded\<close> is false.
\<close>

definition init_state :: app_state where
  "init_state =
     \<lparr>data = SAMPLE_DATA, data_ref = 0, next_ref = 1, isLoaded = False, isProcessingAI = False,
      processingField = None, aiFeedback = None, showResetConfirm = False, apiKeyError = False,
      timers = [], calls = [], load_pending = True, db_calls = [LoadFromDB]\<rparr>"

section \<open>The handlers\<close>

text \<open>
  \<open>initData\<close> after \<open>loadFromDB\<close> has returned \<open>savedData\<close>; \<open>isApiKeyMissing\<close> is the test
  on the environment's \<open>API_KEY\<close>.
\<close>

definition initData_resume :: "S1aFormState option \<Rightarrow> bool \<Rightarrow> app_state \<Rightarrow> app_state" where
  "initData_resume savedData isApiKeyMissing s =
     (let s1 = (case savedData of Some d \<Rightarrow> setData_saved d s | None \<Rightarrow> s);
          s2 = s1\<lparr>isLoaded := True, load_pending := False\<rparr>
      in if isApiKeyMissing then s2\<lparr>apiKeyError := True\<rparr> else s2)"

text \<open>The second effect, which depends on \<open>data\<close> and \<open>isLoaded\<close>.\<close>

definition save_effect :: "app_state \<Rightarrow> app_state" where
  "save_effect s = (if \<not> isLoaded s then s else s\<lparr>db_calls := db_calls s @ [SaveToDB (data s)]\<rparr>)"

text \<open>
  After a handler has turned \<open>s\<close> into \<open>s'\<close> the component renders again, and the effect
  runs if one of its dependencies is another object or value than before.
\<close>

definition rerender :: "app_state \<Rightarrow> app_state \<Rightarrow> app_state" where
  "rerender s s' =
     (if data_ref s' \<noteq> data_ref s \<or> isLoaded s' \<noteq> isLoaded s then save_effect s' else s')"

text \<open>
  \<open>handleReset\<close>, with the outcome of \<open>clearDB\<close>: when the call fails, the awaiting
  handler stops there.
\<close>

definition handleReset :: "bool \<Rightarrow> app_state \<Rightarrow> app_state" where
  "handleReset clear_ok s =
     (let s1 = s\<lparr>db_calls := db_calls s @ [ClearDB clear_ok]\<rparr>
      in if clear_ok then (setData_SAMPLE s1)\<lparr>showResetConfirm := False\<rparr> else s1)"

definition handleInfoChange :: "info_key \<Rightarrow> string \<Rightarrow> app_state \<Rightarrow> app_state" where
  "handleInfoChange field v s = setData_upd (handleInfoChange_upd field v) s"

definition msg_no_key :: string where
  "msg_no_key = ''L'' @ [CHR 0xE1, CHR 0xBB, CHR 0x97] @ ''i: Ch'' @ [CHR 0xC6, CHR 0xB0] @ ''a c''
     @ [CHR 0xC3, CHR 0xB3] @ '' API Key''"

definition msg_connection :: string where
  "msg_connection = ''L'' @ [CHR 0xE1, CHR 0xBB, CHR 0x97] @ ''i k'' @ [CHR 0xE1, CHR 0xBA, CHR 0xBF]
     @ ''t n'' @ [CHR 0xE1, CHR 0xBB, CHR 0x91] @ ''i AI. Th'' @ [CHR 0xE1, CHR 0xBB, CHR 0xAD]
     @ '' l'' @ [CHR 0xE1, CHR 0xBA, CHR 0xA1] @ ''i sau.''"

definition msg_analysing :: string where
  "msg_analysing = ''AI '' @ [CHR 0xC4, CHR 0x91] @ ''ang ph'' @ [CHR 0xC3, CHR 0xA2] @ ''n t''
     @ [CHR 0xC3, CHR 0xAD] @ ''ch...''"

definition msg_added :: string where
  "msg_added = [CHR 0xC4, CHR 0x90, CHR 0xC3, CHR 0xA3] @ '' th'' @ [CHR 0xC3, CHR 0xAA] @ ''m th''
     @ [CHR 0xC3, CHR 0xA0] @ ''nh c'' @ [CHR 0xC3, CHR 0xB4] @ ''ng!''"

definition new_description :: string where
  "new_description = ''Giao d'' @ [CHR 0xE1, CHR 0xBB, CHR 0x8B] @ ''ch m''
     @ [CHR 0xE1, CHR 0xBB, CHR 0x9B] @ ''i''"

definition handleError :: "thrown \<Rightarrow> app_state \<Rightarrow> app_state" where
  "handleError e s =
     (let s1 = (if message e = Some ''API_KEY_MISSING''
                then s\<lparr>apiKeyError := True, aiFeedback := Some msg_no_key\<rparr>
                else s\<lparr>aiFeedback := Some msg_connection\<rparr>)
      in s1\<lparr>timers := timers s1 @ [(3000, ClearFeedback)]\<rparr>)"

text \<open>
  An asynchronous handler is two functions: what it does up to its \<open>await\<close>, and what it
  does once the awaited call has returned (\<open>Inr\<close>) or thrown (\<open>Inl\<close>).
\<close>

definition handleVoiceForField_begin :: "info_key \<Rightarrow> app_state \<Rightarrow> app_state" where
  "handleVoiceForField_begin field s =
     s\<lparr>processingField := Some (key_name field), calls := calls s @ [InfoField field]\<rparr>"

definition handleVoiceForField_resume :: "info_key \<Rightarrow> thrown + string \<Rightarrow> app_state \<Rightarrow> app_state" where
  "handleVoiceForField_resume field r s =
     (let s1 = (case r of
                  Inr text \<Rightarrow> if text \<noteq> [] then handleInfoChange field text s else s
                | Inl e \<Rightarrow> handleError e s)
      in s1\<lparr>processingField := None, calls := remove1 (InfoField field) (calls s1)\<rparr>)"

text \<open>
  \<open>now\<close> is \<open>Date.now()\<close>, the milliseconds since 1970, written out by \<open>toString\<close> as its
  decimal digits (as it is for every number below \<open>10 ^ 21\<close>), and \<open>today\<close> is
  \<open>new Date().toLocaleDateString('vi-VN')\<close>.
\<close>

definition addTransaction :: "nat \<Rightarrow> string \<Rightarrow> app_state \<Rightarrow> app_state" where
  "addTransaction now today s =
     (let newTrans = \<lparr>id_tx = digits10 now, date = today, description = [], amount = Num 0\<rparr>
      in setData_upd (append_upd newTrans) s)"

definition updateTransaction :: "string \<Rightarrow> trans_update \<Rightarrow> app_state \<Rightarrow> app_state" where
  "updateTransaction i u s = setData_upd (updateTransaction_upd i u) s"

definition handleVoiceForTransactionDesc_begin :: "string \<Rightarrow> app_state \<Rightarrow> app_state" where
  "handleVoiceForTransactionDesc_begin i s =
     s\<lparr>processingField := Some (''trans-'' @ i), calls := calls s @ [TransDesc i]\<rparr>"

definition handleVoiceForTransactionDesc_resume :: "string \<Rightarrow> thrown + string \<Rightarrow> app_state \<Rightarrow> app_state" where
  "handleVoiceForTransactionDesc_resume i r s =
     (let s1 = (case r of
                  Inr text \<Rightarrow> if text \<noteq> [] then updateTransaction i (SetDescription text) s else s
                | Inl e \<Rightarrow> handleError e s)
      in s1\<lparr>processingField := None, calls := remove1 (TransDesc i) (calls s1)\<rparr>)"

definition removeTransaction :: "string \<Rightarrow> app_state \<Rightarrow> app_state" where
  "removeTransaction i s = setData_upd (removeTransaction_upd i) s"

text \<open>The operator \<open>||\<close> on a string and on a number that may be missing.\<close>

definition or_string :: "string option \<Rightarrow> string \<Rightarrow> string" where
  "or_string x d = (case x of None \<Rightarrow> d | Some v \<Rightarrow> if v = [] then d else v)"

definition or_number :: "jsnum option \<Rightarrow> jsnum \<Rightarrow> jsnum" where
  "or_number x d = (case x of None \<Rightarrow> d | Some v \<Rightarrow> if v = Num 0 \<or> v = NaN then d else v)"

definition handleSmartVoiceAdd_begin :: "string \<Rightarrow> app_state \<Rightarrow> app_state" where
  "handleSmartVoiceAdd_begin audioBase64 s =
     (if audioBase64 = [] then s
      else s\<lparr>isProcessingAI := True, aiFeedback := Some msg_analysing,
             calls := calls s @ [NewTransaction]\<rparr>)"

definition handleSmartVoiceAdd_resume :: "thrown + parsed \<Rightarrow> nat \<Rightarrow> string \<Rightarrow> app_state \<Rightarrow> app_state" where
  "handleSmartVoiceAdd_resume r now today s =
     (let s1 = (case r of
                  Inr result \<Rightarrow>
                    (let newTrans = \<lparr>id_tx = digits10 now,
                                     date = or_string (p_date result) today,
                                     description = or_string (p_description result) new_description,
                                     amount = or_number (p_amount result) (Num 0)\<rparr>;
                         s2 = setData_upd (append_upd newTrans) s
                     in s2\<lparr>aiFeedback := Some msg_added,
                           timers := timers s2 @ [(3000, ClearFeedback)]\<rparr>)
                | Inl e \<Rightarrow> handleError e s)
      in s1\<lparr>isProcessingAI := False, calls := remove1 NewTransaction (calls s1)\<rparr>)"

text \<open>The \<open>onChange\<close> handler of the amount input.\<close>

definition amount_onChange :: "string \<Rightarrow> string \<Rightarrow> app_state \<Rightarrow> app_state" where
  "amount_onChange i v s = updateTransaction i (SetAmount (parseAmountInput v)) s"

text \<open>A timer that has run out: the oldest one fires.\<close>

definition fire_timer :: "app_state \<Rightarrow> app_state" where
  "fire_timer s =
     (case timers s of
        [] \<Rightarrow> s
      | (_, ClearFeedback) # rest \<Rightarrow> s\<lparr>aiFeedback := None, timers := rest\<rparr>)"

section \<open>Executions\<close>

text \<open>
  What can happen to the mounted component: a user action, or the return of a call that
  a handler awaits. The return of a call is taken up only if such a call is under way.
\<close>

datatype event =
    LoadResolved "S1aFormState option" bool
  | InfoChange info_key string
  | AddTransaction nat string
  | UpdateTransaction string trans_update
  | RemoveTransaction string
  | AmountInput string string
  | OpenResetConfirm
  | CancelResetConfirm
  | ConfirmReset bool
  | VoiceFieldBegin info_key
  | VoiceFieldResume info_key "thrown + string"
  | VoiceDescBegin string
  | VoiceDescResume string "thrown + string"
  | SmartVoiceBegin string
  | SmartVoiceResume "thrown + parsed" nat string
  | TimerFires

fun handle :: "event \<Rightarrow> app_state \<Rightarrow> app_state" where
  "handle (LoadResolved savedData k) s =
     (if load_pending s then initData_resume savedData k s else s)"
| "handle (InfoChange field v) s = handleInfoChange field v s"
| "handle (AddTransaction now today) s = addTransaction now today s"
| "handle (UpdateTransaction i u) s = updateTransaction i u s"
| "handle (RemoveTransaction i) s = removeTransaction i s"
| "handle (AmountInput i v) s = amount_onChange i v s"
| "handle OpenResetConfirm s = s\<lparr>showResetConfirm := True\<rparr>"
| "handle CancelResetConfirm s = s\<lparr>showResetConfirm := False\<rparr>"
| "handle (ConfirmReset clear_ok) s = handleReset clear_ok s"
| "handle (VoiceFieldBegin field) s = handleVoiceForField_begin field s"
| "handle (VoiceFieldResume field r) s =
     (if InfoField field \<in> set (calls s) then handleVoiceForField_resume field r s else s)"
| "handle (VoiceDescBegin i) s = handleVoiceForTransactionDesc_begin i s"
| "handle (VoiceDescResume i r) s =
     (if TransDesc i \<in> set (calls s) then handleVoiceForTransactionDesc_resume i r s else s)"
| "handle (SmartVoiceBegin audioBase64) s = handleSmartVoiceAdd_begin audioBase64 s"
| "handle (SmartVoiceResume r now today) s =
     (if NewTransaction \<in> set (calls s) then handleSmartVoiceAdd_resume r now today s else s)"
| "handle TimerFires s = fire_timer s"

definition step :: "event \<Rightarrow> app_state \<Rightarrow> app_state" where
  "step e s = rerender s (handle e s)"

definition run :: "event list \<Rightarrow> app_state \<Rightarrow> app_state" where
  "run es s = foldl (\<lambda>s e. step e s) s es"

fun is_load :: "event \<Rightarrow> bool" where
  "is_load (LoadResolved _ _) = True"
| "is_load _ = False"

fun is_save :: "db_call \<Rightarrow> bool" where
  "is_save (SaveToDB _) = True"
| "is_save _ = False"

text \<open>A capture target is busy while a call for it is under way.\<close>

definition busy :: "capture_target \<Rightarrow> app_state \<Rightarrow> bool" where
  "busy target s = (target \<in> set (calls s))"

section \<open>The persistence store\<close>

text \<open>
  The functions \<open>loadFromDB\<close>, \<open>saveToDB\<close> and \<open>clearDB\<close> of \<open>services/db\<close> are missing
  from the sources. What the spec says of them: the store holds one ledger document or
  none.
\<close>

type_synonym store = "S1aFormState option"

text \<open>
  Modelled from the spec: \<open>saveToDB\<close> and \<open>clearDB\<close> of \<open>services/db\<close> are missing. A
  save puts its document in the place of what was stored, a clear removes all stored
  state, a load leaves the store as it is. A save is taken to succeed; a clear that
  fails leaves the store as it was.
\<close>

fun db_apply :: "store \<Rightarrow> db_call \<Rightarrow> store" where
  "db_apply st LoadFromDB = st"
| "db_apply st (SaveToDB d) = Some d"
| "db_apply st (ClearDB ok) = (if ok then None else st)"

text \<open>
  Modelled from the spec: \<open>loadFromDB\<close> of \<open>services/db\<close> is missing. A load returns the
  stored document, or nothing when none is stored.
\<close>

definition loadFromDB :: "store \<Rightarrow> S1aFormState option" where
  "loadFromDB st = st"

text \<open>
  The content of a store that held \<open>st\<close> when the component mounted, after the calls that
  the component has made since.
\<close>

definition store_of :: "store \<Rightarrow> app_state \<Rightarrow> store" where
  "store_of st s = foldl db_apply st (db_calls s)"

text \<open>
  Until \<open>loadFromDB\<close> has returned, the component waits: it is not loaded, and it has
  made no save.
\<close>

definition waiting :: "app_state \<Rightarrow> bool" where
  "waiting s = (\<not> isLoaded s \<and> load_pending s \<and> (\<forall>c\<in>set (db_calls s). \<not> is_save c))"

section \<open>Decimal digits and doubles\<close>

lemma digit_char_props:
  assumes "d < 10"
  shows "is_digit (digit_char d)" and "digit_val (digit_char d) = d" and "digit_char d \<noteq> CHR ''.''"
proof -
  have m: "(48 + d) mod 256 = 48 + d" using assms by simp
  have oc: "(of_char (digit_char d) :: nat) = 48 + d"
    unfolding digit_char_def using m by (simp add: of_char_of)
  show "is_digit (digit_char d)" using oc assms by (simp add: is_digit_def)
  show "digit_val (digit_char d) = d" using oc by (simp add: digit_val_def)
  show "digit_char d \<noteq> CHR ''.''"
  proof
    assume "digit_char d = CHR ''.''"
    then have "(of_char (digit_char d) :: nat) = of_char (CHR ''.'')" by simp
    with oc show False by simp
  qed
qed

lemma is_digit_not_dot: "is_digit c \<Longrightarrow> c \<noteq> CHR ''.''"
  by (auto simp: is_digit_def)

lemma is_digit_not_space: "is_digit c \<Longrightarrow> \<not> is_space c"
  by (auto simp: is_digit_def is_space_def)

lemma is_digit_not_sign: "is_digit c \<Longrightarrow> c \<noteq> CHR ''-'' \<and> c \<noteq> CHR ''+''"
  by (auto simp: is_digit_def)

lemma dec_value_snoc: "dec_value (ds @ [c]) = 10 * dec_value ds + digit_val c"
  by (simp add: dec_value_def)

lemma dec_value_digits10: "dec_value (digits10 n) = n"
proof (induction n rule: digits10.induct)
  case (1 n)
  show ?case
  proof (cases "n < 10")
    case True
    then show ?thesis
      by (subst digits10.simps) (simp add: dec_value_def digit_char_props)
  next
    case False
    have "n mod 10 < 10" by simp
    then have dv: "digit_val (digit_char (n mod 10)) = n mod 10" by (rule digit_char_props)
    have "dec_value (digits10 n) = 10 * dec_value (digits10 (n div 10)) + n mod 10"
      using False dv by (subst digits10.simps) (simp add: dec_value_snoc)
    also have "\<dots> = n" using 1 False by simp
    finally show ?thesis .
  qed
qed

lemma digits10_all_digits: "c \<in> set (digits10 n) \<Longrightarrow> is_digit c"
proof (induction n rule: digits10.induct)
  case (1 n)
  show ?case
  proof (cases "n < 10")
    case True
    with 1(2) show ?thesis
      by (subst (asm) digits10.simps) (simp add: digit_char_props)
  next
    case False
    have "n mod 10 < 10" by simp
    then have "is_digit (digit_char (n mod 10))" by (rule digit_char_props)
    with 1 False show ?thesis
      by (subst (asm) (2) digits10.simps) auto
  qed
qed

lemma digits10_nonempty: "digits10 n \<noteq> []"
  by (subst digits10.simps) simp

lemma filter_grp: "filter (\<lambda>c. c \<noteq> CHR ''.'') (grp xs) = filter (\<lambda>c. c \<noteq> CHR ''.'') xs"
  by (induction xs rule: grp.induct) simp_all

lemma filter_group3: "filter (\<lambda>c. c \<noteq> CHR ''.'') (group3 ds) = filter (\<lambda>c. c \<noteq> CHR ''.'') ds"
  by (simp add: group3_def filter_grp flip: rev_filter)

lemma parseInt10_digits:
  assumes "ds \<noteq> []" and "\<forall>c \<in> set ds. is_digit c"
  shows "parseInt10 ds = to_double (dec_value ds)"
proof -
  obtain c cs where ds: "ds = c # cs" using assms(1) by (cases ds) auto
  then have c: "is_digit c" using assms(2) by simp
  have d1: "dropWhile is_space ds = ds" using ds c by (simp add: is_digit_not_space)
  have t: "takeWhile is_digit ds = ds" using assms(2) by (simp add: takeWhile_eq_all_conv)
  have h: "hd ds \<noteq> CHR ''-''" "hd ds \<noteq> CHR ''+''"
    using ds is_digit_not_sign[OF c] by simp_all
  have s2: "(if ds \<noteq> [] \<and> (hd ds = CHR ''-'' \<or> hd ds = CHR ''+'') then tl ds else ds) = ds"
    using h by simp
  show ?thesis
    unfolding parseInt10_def d1 Let_def s2 t using h assms(1) by simp
qed

lemma parseInt10_Nil: "parseInt10 [] = NaN"
  by (simp add: parseInt10_def)

lemma parseAmountInput_clean:
  "parseAmountInput v =
     (let ds = filter is_digit v in if ds = [] then Num 0 else
        (case to_double (dec_value ds) of NaN \<Rightarrow> Num 0 | x \<Rightarrow> x))"
proof -
  have f: "filter is_digit (filter (\<lambda>c. c \<noteq> CHR ''.'') v) = filter is_digit v"
    by (induction v) (auto simp: is_digit_not_dot)
  show ?thesis
  proof (cases "filter is_digit v = []")
    case True
    then show ?thesis unfolding parseAmountInput_def f by (simp add: parseInt10_Nil isNaN_def)
  next
    case False
    then have "parseInt10 (filter is_digit v) = to_double (dec_value (filter is_digit v))"
      by (intro parseInt10_digits) auto
    then show ?thesis using False unfolding parseAmountInput_def f
      by (simp add: isNaN_def Let_def split: jsnum.splits)
  qed
qed

lemma to_double_exact: "n < 2 ^ 53 \<Longrightarrow> to_double n = Num (int n)"
  by (simp add: to_double_def)

lemma bitlen_bounds: "n \<noteq> 0 \<Longrightarrow> 2 ^ (bitlen n - 1) \<le> n \<and> n < 2 ^ bitlen n"
proof (induction n rule: bitlen.induct)
  case (1 n)
  have bl: "bitlen n = Suc (bitlen (n div 2))" using 1(2) by (subst bitlen.simps) simp
  show ?case
  proof (cases "n div 2 = 0")
    case True
    then have "n = 1" using 1(2) by presburger
    moreover have "bitlen (0::nat) = 0" by (subst bitlen.simps) simp
    ultimately show ?thesis using bl by simp
  next
    case False
    then have ih: "2 ^ (bitlen (n div 2) - 1) \<le> n div 2" "n div 2 < 2 ^ bitlen (n div 2)"
      using 1(1)[OF 1(2)] by simp_all
    have pos: "bitlen (n div 2) \<noteq> 0" using False by (subst bitlen.simps) simp
    then have p: "(2::nat) ^ bitlen (n div 2) = 2 * 2 ^ (bitlen (n div 2) - 1)"
      by (cases "bitlen (n div 2)") simp_all
    have "2 * (n div 2) \<le> n" by simp
    then have lo: "2 ^ bitlen (n div 2) \<le> n" using ih(1) p by linarith
    have "n < 2 * (n div 2) + 2" by presburger
    then have hi: "n < 2 * 2 ^ bitlen (n div 2)" using ih(2) by linarith
    show ?thesis using lo hi bl by simp
  qed
qed

lemma to_double_cases: "to_double n = PosInf \<or> (\<exists>k\<ge>0. to_double n = Num k)"
  by (simp add: to_double_def Let_def)

lemma to_double_below_limit:
  assumes "n < 2 ^ 1024 - 2 ^ 970"
  shows "\<exists>k\<ge>0. to_double n = Num k"
proof (cases "n < 2 ^ 53")
  case True
  then show ?thesis by (simp add: to_double_def)
next
  case False
  define e where "e = bitlen n - 53"
  define q where "q = n div 2 ^ e"
  define r where "r = n mod 2 ^ e"
  define q' where "q' = (if 2 ^ (e - 1) < r \<or> (r = 2 ^ (e - 1) \<and> odd q) then q + 1 else q)"
  have n0: "n \<noteq> 0" using False by auto
  have bb: "2 ^ (bitlen n - 1) \<le> n" "n < 2 ^ bitlen n" using bitlen_bounds[OF n0] by simp_all
  have "(2::nat) ^ 53 < 2 ^ bitlen n" using False bb(2) by linarith
  then have b53: "53 < bitlen n" by (rule power_less_imp_less_exp[rotated]) simp
  then have be: "bitlen n = e + 53" by (simp add: e_def)
  have "n < 2 ^ e * 2 ^ 53" using bb(2) by (simp add: be power_add)
  then have q_lt: "q < 2 ^ 53" unfolding q_def by (simp add: less_mult_imp_div_less mult.commute)
  have q'_le: "q' \<le> q + 1" by (simp add: q'_def)
  have n_lt: "n < 2 ^ 1024" using assms by linarith
  have "(2::nat) ^ (bitlen n - 1) < 2 ^ 1024" using bb(1) n_lt by linarith
  then have "bitlen n - 1 < 1024" by (rule power_less_imp_less_exp[rotated]) simp
  then have e_le: "e \<le> 971" using be by simp
  have fin: "q' * 2 ^ e < 2 ^ 1024"
  proof (cases "e = 971")
    case False
    then have e53: "53 + e \<le> 1023" using e_le by simp
    have "q' * 2 ^ e \<le> 2 ^ 53 * 2 ^ e"
      using q'_le q_lt by (intro mult_le_mono1) simp
    also have "\<dots> = 2 ^ (53 + e)" by (simp only: power_add)
    also have "\<dots> \<le> 2 ^ 1023" using e53 by (intro power_increasing) simp_all
    also have "\<dots> < 2 ^ 1024" by (intro power_strict_increasing) simp_all
    finally show ?thesis .
  next
    case True
    have dm: "n = q * 2 ^ 971 + r" and rl: "r < 2 ^ 971"
      unfolding q_def r_def True by simp_all
    have q'53: "q' < 2 ^ 53"
    proof (cases "q + 1 < 2 ^ 53")
      case True
      with q'_le show ?thesis by linarith
    next
      case False
      then have qe: "q = 2 ^ 53 - 1" using q_lt by simp
      have "r < 2 ^ 970" using assms dm unfolding qe by simp
      then have "q' = q" by (simp add: q'_def True)
      then show ?thesis using q_lt by simp
    qed
    then have "q' * 2 ^ 971 < 2 ^ 53 * 2 ^ 971" by (intro mult_strict_right_mono) simp_all
    then show ?thesis unfolding True by simp
  qed
  have "to_double n = Num (int (q' * 2 ^ e))"
    using False fin unfolding to_double_def Let_def q'_def r_def q_def e_def by simp
  then show ?thesis by simp
qed

lemma to_double_overflow:
  assumes "2 ^ 1024 \<le> n"
  shows "to_double n = PosInf"
proof -
  define e where "e = bitlen n - 53"
  define q where "q = n div 2 ^ e"
  define q' where "q' = (if 2 ^ (e - 1) < n mod 2 ^ e \<or> (n mod 2 ^ e = 2 ^ (e - 1) \<and> odd q) then q + 1 else q)"
  have n0: "n \<noteq> 0" using assms by auto
  have bb: "2 ^ (bitlen n - 1) \<le> n" "n < 2 ^ bitlen n" using bitlen_bounds[OF n0] by simp_all
  have "(2::nat) ^ 1024 < 2 ^ bitlen n" using assms bb(2) by linarith
  then have bl: "1024 < bitlen n" by (rule power_less_imp_less_exp[rotated]) simp
  then have "bitlen n - 1 = e + 52" by (simp add: e_def)
  then have "(2::nat) ^ 52 * 2 ^ e \<le> n" using bb(1) by (simp add: power_add mult.commute)
  then have "2 ^ 52 \<le> q" unfolding q_def by (simp add: less_eq_div_iff_mult_less_eq)
  moreover have "q \<le> q'" by (simp add: q'_def)
  ultimately have "(2::nat) ^ 52 * 2 ^ e \<le> q' * 2 ^ e" by (intro mult_le_mono1) simp
  then have "(2::nat) ^ (52 + e) \<le> q' * 2 ^ e" by (simp only: power_add)
  moreover have "1024 \<le> 52 + e" using bl by (simp add: e_def)
  then have "(2::nat) ^ 1024 \<le> 2 ^ (52 + e)" by (intro power_increasing) simp_all
  ultimately have "(2::nat) ^ 1024 \<le> q' * 2 ^ e" by (rule order_trans[rotated])
  then have big: "\<not> q' * 2 ^ e < 2 ^ 1024" by (simp only: not_less)
  have "(2::nat) ^ 53 \<le> 2 ^ 1024" by (intro power_increasing) simp_all
  then have "\<not> n < 2 ^ 53" using assms by linarith
  then show ?thesis
    using big unfolding to_double_def Let_def q'_def q_def e_def by simp
qed

lemma to_double_above_limit:
  assumes "2 ^ 1024 - 2 ^ 970 \<le> n"
  shows "to_double n = PosInf"
proof (cases "2 ^ 1024 \<le> n")
  case True
  then show ?thesis by (rule to_double_overflow)
next
  case False
  then have n_lt: "n < 2 ^ 1024" by simp
  have n_ge: "2 ^ 1023 \<le> n" using assms by simp
  have n0: "n \<noteq> 0" using n_ge by auto
  have bb: "2 ^ (bitlen n - 1) \<le> n" "n < 2 ^ bitlen n" using bitlen_bounds[OF n0] by simp_all
  have "(2::nat) ^ 1023 < 2 ^ bitlen n" using n_ge bb(2) by linarith
  then have "1023 < bitlen n" by (rule power_less_imp_less_exp[rotated]) simp
  moreover have "(2::nat) ^ (bitlen n - 1) < 2 ^ 1024" using bb(1) n_lt by linarith
  then have "bitlen n - 1 < 1024" by (rule power_less_imp_less_exp[rotated]) simp
  ultimately have bl: "bitlen n = 1024" by simp
  define e where "e = bitlen n - 53"
  define q where "q = n div 2 ^ e"
  define r where "r = n mod 2 ^ e"
  define q' where "q' = (if 2 ^ (e - 1) < r \<or> (r = 2 ^ (e - 1) \<and> odd q) then q + 1 else q)"
  have e971: "e = 971" by (simp add: e_def bl)
  have dm: "n = q * 2 ^ 971 + r" and rl: "r < 2 ^ 971"
    unfolding q_def r_def e971 by simp_all
  have qe: "q = 2 ^ 53 - 1"
  proof -
    have "q < 2 ^ 53" using n_lt unfolding q_def e971 by (simp add: less_mult_imp_div_less)
    moreover have "2 ^ 53 - 1 \<le> q" using assms unfolding q_def e971
      by (simp add: less_eq_div_iff_mult_less_eq)
    ultimately show ?thesis by simp
  qed
  have rh: "2 ^ 970 \<le> r" using assms dm unfolding qe by simp
  have oq: "odd q" unfolding qe by simp
  have "q' = q + 1" using rh oq by (auto simp: q'_def e971)
  then have "q' * 2 ^ e = 2 ^ 1024" by (simp add: qe e971)
  then have big: "\<not> q' * 2 ^ e < 2 ^ 1024" by simp
  have n53: "\<not> n < 2 ^ 53" using n_ge by simp
  show ?thesis
    using n53 big unfolding to_double_def Let_def q'_def r_def q_def e_def by simp
qed

lemma digit_val_le: "is_digit c \<Longrightarrow> digit_val c \<le> 9"
  unfolding is_digit_def digit_val_def by linarith

lemma dec_value_bound: "\<forall>c\<in>set ds. is_digit c \<Longrightarrow> dec_value ds < 10 ^ length ds"
proof (induction ds rule: rev_induct)
  case Nil
  then show ?case by (simp add: dec_value_def)
next
  case (snoc c ds)
  then have "dec_value ds < 10 ^ length ds" and "digit_val c \<le> 9"
    by (simp_all add: digit_val_le)
  then show ?case by (simp add: dec_value_snoc)
qed

lemma parseAmountInput_cases: "parseAmountInput v = PosInf \<or> (\<exists>k\<ge>0. parseAmountInput v = Num k)"
proof (cases "filter is_digit v = []")
  case True
  then show ?thesis by (simp add: parseAmountInput_clean)
next
  case False
  from to_double_cases[of "dec_value (filter is_digit v)"] show ?thesis
    using False by (auto simp: parseAmountInput_clean)
qed

lemma parseAmountInput_below_limit:
  assumes "dec_value (filter is_digit v) < 2 ^ 1024 - 2 ^ 970"
  shows "\<exists>k\<ge>0. parseAmountInput v = Num k"
proof (cases "filter is_digit v = []")
  case True
  then show ?thesis by (simp add: parseAmountInput_clean)
next
  case False
  from to_double_below_limit[OF assms]
  obtain k where "k \<ge> 0" "to_double (dec_value (filter is_digit v)) = Num k" by blast
  then show ?thesis using False by (simp add: parseAmountInput_clean)
qed

lemma parseAmountInput_finite:
  assumes "length (filter is_digit v) \<le> 308"
  shows "\<exists>k\<ge>0. parseAmountInput v = Num k"
proof -
  have "dec_value (filter is_digit v) < 10 ^ length (filter is_digit v)"
    by (rule dec_value_bound) simp
  also have "\<dots> \<le> 10 ^ 308" using assms by (intro power_increasing) simp_all
  also have "\<dots> \<le> 2 ^ 1024 - 2 ^ 970" by simp
  finally show ?thesis by (rule parseAmountInput_below_limit)
qed

lemma parseAmountInput_above_limit:
  assumes "2 ^ 1024 - 2 ^ 970 \<le> dec_value (filter is_digit v)"
  shows "parseAmountInput v = PosInf"
proof -
  have "filter is_digit v \<noteq> []" using assms by (auto simp: dec_value_def)
  then show ?thesis
    using to_double_above_limit[OF assms] by (simp add: parseAmountInput_clean)
qed

lemma amount_onChange_transactions:
  "transactions (data (amount_onChange i v s)) =
     map (\<lambda>t. if id_tx t = i then t\<lparr>amount := parseAmountInput v\<rparr> else t) (transactions (data s))"
  by (simp add: amount_onChange_def updateTransaction_def setData_upd_def updateTransaction_upd_def)

lemma upd_amount_stored:
  assumes "t \<in> set (transactions (data (amount_onChange i v s)))" and "id_tx t = i"
  shows "amount t = parseAmountInput v"
proof -
  from assms(1) obtain t0 where "t0 \<in> set (transactions (data s))"
    and t: "t = (if id_tx t0 = i then t0\<lparr>amount := parseAmountInput v\<rparr> else t0)"
    unfolding amount_onChange_transactions by auto
  show ?thesis
  proof (cases "id_tx t0 = i")
    case True
    with t show ?thesis by simp
  next
    case False
    with t assms(2) show ?thesis by simp
  qed
qed

lemma to_double_finite_iff: "(\<exists>k. to_double n = Num k) \<longleftrightarrow> n < 2 ^ 1024 - 2 ^ 970"
proof
  assume "\<exists>k. to_double n = Num k"
  then show "n < 2 ^ 1024 - 2 ^ 970"
    using to_double_above_limit[of n] by (cases "n < 2 ^ 1024 - 2 ^ 970") auto
next
  assume "n < 2 ^ 1024 - 2 ^ 970"
  then show "\<exists>k. to_double n = Num k" using to_double_below_limit by blast
qed

lemma dec_value_zeros: "dec_value (ds @ replicate k (CHR ''0'')) = dec_value ds * 10 ^ k"
proof (induction k)
  case 0
  then show ?case by simp
next
  case (Suc k)
  have "dec_value (ds @ replicate (Suc k) (CHR ''0'')) = dec_value ((ds @ replicate k (CHR ''0'')) @ [CHR ''0''])"
    by (simp add: replicate_append_same)
  also have "\<dots> = 10 * dec_value (ds @ replicate k (CHR ''0''))"
    unfolding dec_value_snoc by (simp add: digit_val_def)
  finally show ?case using Suc by simp
qed

lemma parseAmountInput_overflow_example: "parseAmountInput (CHR ''2'' # replicate 308 (CHR ''0'')) = PosInf"
proof -
  have d: "filter is_digit (CHR ''2'' # replicate 308 (CHR ''0'')) = CHR ''2'' # replicate 308 (CHR ''0'')"
    by (simp add: is_digit_def)
  have "dec_value ([CHR ''2''] @ replicate 308 (CHR ''0'')) = 2 * 10 ^ 308"
    unfolding dec_value_zeros by (simp add: dec_value_def digit_val_def)
  moreover have "(2::nat) ^ 1024 \<le> 2 * 10 ^ 308" by simp
  ultimately have "to_double (dec_value (CHR ''2'' # replicate 308 (CHR ''0''))) = PosInf"
    using to_double_overflow by simp
  then show ?thesis unfolding parseAmountInput_clean d by simp
qed

section \<open>The digits that are shown\<close>

text \<open>
  Whatever the search for the shortest digits returns reads back as the number it started
  from; below \<open>2 ^ 53\<close> it returns the number itself, so all its digits are shown.
\<close>

lemma shortest_from_reads_back:
  assumes "to_double n = Num (int n)"
  shows "to_double (shortest_from n k) = Num (int n)"
  using assms by (induction k) (simp_all add: Let_def)

lemma shortest_decimal_reads_back:
  "to_double n = Num (int n) \<Longrightarrow> to_double (shortest_decimal n) = Num (int n)"
  unfolding shortest_decimal_def by (rule shortest_from_reads_back)

lemma to_double_large:
  assumes "\<not> c < 2 ^ 53"
  shows "to_double c = PosInf \<or> (\<exists>v. to_double c = Num (int v) \<and> 2 ^ 53 \<le> v)"
proof -
  define e where "e = bitlen c - 53"
  define q where "q = c div 2 ^ e"
  define q' where "q' = (if 2 ^ (e - 1) < c mod 2 ^ e \<or> (c mod 2 ^ e = 2 ^ (e - 1) \<and> odd q) then q + 1 else q)"
  have c0: "c \<noteq> 0" using assms by auto
  have bb: "2 ^ (bitlen c - 1) \<le> c" "c < 2 ^ bitlen c" using bitlen_bounds[OF c0] by simp_all
  have "(2::nat) ^ 53 < 2 ^ bitlen c" using assms bb(2) by linarith
  then have bl: "53 < bitlen c" by (rule power_less_imp_less_exp[rotated]) simp
  then have "bitlen c - 1 = e + 52" by (simp add: e_def)
  then have "(2::nat) ^ 52 * 2 ^ e \<le> c" using bb(1) by (simp add: power_add mult.commute)
  then have "2 ^ 52 \<le> q" unfolding q_def by (simp add: less_eq_div_iff_mult_less_eq)
  moreover have "q \<le> q'" by (simp add: q'_def)
  ultimately have "(2::nat) ^ 52 * 2 ^ e \<le> q' * 2 ^ e" by (intro mult_le_mono1) simp
  then have "(2::nat) ^ (52 + e) \<le> q' * 2 ^ e" by (simp only: power_add)
  moreover have "53 \<le> 52 + e" using bl by (simp add: e_def)
  then have "(2::nat) ^ 53 \<le> 2 ^ (52 + e)" by (intro power_increasing) simp_all
  ultimately have big: "(2::nat) ^ 53 \<le> q' * 2 ^ e" by (rule order_trans[rotated])
  have td: "to_double c = (if q' * 2 ^ e < 2 ^ 1024 then Num (int (q' * 2 ^ e)) else PosInf)"
    using assms unfolding to_double_def Let_def q'_def q_def e_def by simp
  show ?thesis
  proof (cases "q' * 2 ^ e < 2 ^ 1024")
    case True
    then have "to_double c = Num (int (q' * 2 ^ e))" by (simp only: td if_True)
    with big show ?thesis by blast
  next
    case False
    then have "to_double c = PosInf" by (simp only: td if_False)
    then show ?thesis by blast
  qed
qed

lemma reads_back_small:
  assumes "n < 2 ^ 53" and "to_double c = Num (int n)"
  shows "c = n"
proof (cases "c < 2 ^ 53")
  case True
  then show ?thesis using assms(2) by (simp add: to_double_def)
next
  case False
  from to_double_large[OF False] assms show ?thesis by auto
qed

lemma shortest_from_small:
  assumes "n < 2 ^ 53"
  shows "shortest_from n k = n"
proof (induction k)
  case 0
  then show ?case by simp
next
  case (Suc k)
  show ?case
    using Suc reads_back_small[OF assms] by (auto simp: Let_def)
qed

lemma shortest_decimal_small: "n < 2 ^ 53 \<Longrightarrow> shortest_decimal n = n"
  unfolding shortest_decimal_def by (rule shortest_from_small)

text \<open>
  An example above \<open>2 ^ 53\<close>: the double \<open>2 ^ 54 + 8\<close> is shown with the digits of
  18014398509481990, which is not a double and reads back as \<open>2 ^ 54 + 8\<close>.
\<close>

lemma bitlen_eq:
  assumes "2 ^ k \<le> n" and "n < 2 ^ Suc k"
  shows "bitlen n = Suc k"
proof -
  have n0: "n \<noteq> 0" using assms(1) by (cases "n = 0") simp_all
  have bb: "2 ^ (bitlen n - 1) \<le> n" "n < 2 ^ bitlen n" using bitlen_bounds[OF n0] by simp_all
  have "(2::nat) ^ k < 2 ^ bitlen n" using assms(1) bb(2) by linarith
  then have "k < bitlen n" by (rule power_less_imp_less_exp[rotated]) simp
  moreover have "(2::nat) ^ (bitlen n - 1) < 2 ^ Suc k" using assms(2) bb(1) by linarith
  then have "bitlen n - 1 < Suc k" by (rule power_less_imp_less_exp[rotated]) simp
  ultimately show ?thesis by simp
qed

lemma to_double_near:
  assumes "c < 2 ^ 55" and "to_double c = Num (int n)"
  shows "n \<le> c + 2 \<and> c \<le> n + 2"
proof (cases "c < 2 ^ 53")
  case True
  then show ?thesis using assms(2) by (simp add: to_double_def)
next
  case False
  define e where "e = bitlen c - 53"
  define q where "q = c div 2 ^ e"
  define r where "r = c mod 2 ^ e"
  define q' where "q' = (if 2 ^ (e - 1) < r \<or> (r = 2 ^ (e - 1) \<and> odd q) then q + 1 else q)"
  have bl: "bitlen c = 54 \<or> bitlen c = 55"
  proof (cases "c < 2 ^ 54")
    case True
    then have "bitlen c = Suc 53" using False by (intro bitlen_eq) simp_all
    then show ?thesis by simp
  next
    case False
    then have "bitlen c = Suc 54" using assms(1) by (intro bitlen_eq) simp_all
    then show ?thesis by simp
  qed
  then have e12: "e = 1 \<or> e = 2" by (auto simp: e_def)
  have dm: "c = q * 2 ^ e + r" unfolding q_def r_def by (rule div_mult_mod_eq[symmetric])
  have rl: "r < 2 ^ e" unfolding r_def by simp
  have td: "to_double c = (if q' * 2 ^ e < 2 ^ 1024 then Num (int (q' * 2 ^ e)) else PosInf)"
    using False unfolding to_double_def Let_def q'_def r_def q_def e_def by simp
  have n: "n = q' * 2 ^ e"
  proof (cases "q' * 2 ^ e < 2 ^ 1024")
    case True
    then have "to_double c = Num (int (q' * 2 ^ e))" by (simp only: td if_True)
    with assms(2) have "int n = int (q' * 2 ^ e)" by simp
    then show ?thesis by (simp only: of_nat_eq_iff)
  next
    case False
    then have "to_double c = PosInf" by (simp only: td if_False)
    with assms(2) show ?thesis by simp
  qed
  from e12 show ?thesis
  proof
    assume e: "e = 1"
    show ?thesis using dm rl n unfolding q'_def e by (auto split: if_splits)
  next
    assume e: "e = 2"
    show ?thesis using dm rl n unfolding q'_def e by (auto split: if_splits)
  qed
qed

lemma shortest_from_skip:
  assumes "(n div 10 ^ Suc k) * 10 ^ Suc k + 10 ^ Suc k < 2 ^ 55"
    and "2 < n mod 10 ^ Suc k" and "n mod 10 ^ Suc k + 2 < 10 ^ Suc k"
  shows "shortest_from n (Suc k) = shortest_from n k"
proof -
  define p where "p = (10::nat) ^ Suc k"
  define lo where "lo = (n div p) * p"
  have dm: "n = lo + n mod p" unfolding lo_def by (rule div_mult_mod_eq[symmetric])
  have "\<not> to_double lo = Num (int n)"
  proof
    assume "to_double lo = Num (int n)"
    moreover have "lo < 2 ^ 55" using assms(1) unfolding lo_def p_def by linarith
    ultimately have "n \<le> lo + 2" using to_double_near by blast
    then show False using dm assms(2) unfolding p_def by linarith
  qed
  moreover have "\<not> to_double (lo + p) = Num (int n)"
  proof
    assume "to_double (lo + p) = Num (int n)"
    moreover have "lo + p < 2 ^ 55" using assms(1) unfolding lo_def p_def by linarith
    ultimately have "lo + p \<le> n + 2" using to_double_near by blast
    then show False using dm assms(3) unfolding p_def by linarith
  qed
  ultimately show ?thesis
    unfolding shortest_from.simps Let_def lo_def p_def by simp
qed

lemma far_from_round_numbers:
  assumes "(n::nat) mod 100 = 92"
  shows "2 < n mod 10 ^ Suc (Suc k) \<and> n mod 10 ^ Suc (Suc k) + 2 < 10 ^ Suc (Suc k)"
proof -
  define m where "m = (10::nat) ^ k"
  define r where "r = n mod (100 * m)"
  have p: "(10::nat) ^ Suc (Suc k) = 100 * m" by (simp add: m_def)
  have "r mod 100 = n mod 100" unfolding r_def by (simp add: mod_mod_cancel)
  then have r92: "r mod 100 = 92" using assms by simp
  have m0: "0 < m" by (simp add: m_def)
  have "r < 100 * m" unfolding r_def using m0 by simp
  then have "r div 100 < m" by (simp add: div_less_iff_less_mult mult.commute)
  moreover have "r = 100 * (r div 100) + 92" using r92 by presburger
  ultimately have "2 < r \<and> r + 2 < 100 * m" by linarith
  then show ?thesis unfolding p r_def .
qed

lemma digits_example: "digits10 18014398509481990 = ''18014398509481990''"
  by (simp add: digits10.simps digit_char_def char_of_def bit_0)

lemma reads_back_example: "to_double 18014398509481990 = Num 18014398509481992"
proof -
  have "bitlen 18014398509481990 = Suc 54" by (rule bitlen_eq) simp_all
  then show ?thesis by (simp add: to_double_def)
qed

lemma double_example: "to_double 18014398509481992 = Num 18014398509481992"
proof -
  have "bitlen 18014398509481992 = Suc 54" by (rule bitlen_eq) simp_all
  then show ?thesis by (simp add: to_double_def)
qed

lemma search_example_first: "shortest_from 18014398509481992 (Suc 0) = 18014398509481990"
proof -
  have "\<not> to_double 18014398509482000 = Num (int 18014398509481992)"
  proof
    assume "to_double 18014398509482000 = Num (int 18014398509481992)"
    then have "18014398509482000 \<le> (18014398509481992::nat) + 2"
      using to_double_near[of 18014398509482000 18014398509481992] by simp
    then show False by simp
  qed
  then show ?thesis using reads_back_example by (simp add: Let_def)
qed

lemma search_example: "k \<le> 15 \<Longrightarrow> shortest_from 18014398509481992 (Suc k) = 18014398509481990"
proof (induction k)
  case 0
  show ?case by (rule search_example_first)
next
  case (Suc k)
  let ?n = "18014398509481992::nat"
  have "(10::nat) ^ Suc (Suc k) \<le> 10 ^ 16" using Suc.prems by (intro power_increasing) simp_all
  moreover have "(?n div 10 ^ Suc (Suc k)) * 10 ^ Suc (Suc k) \<le> ?n"
    by (rule div_times_less_eq_dividend)
  ultimately have "(?n div 10 ^ Suc (Suc k)) * 10 ^ Suc (Suc k) + 10 ^ Suc (Suc k) \<le> ?n + 10 ^ 16"
    by (rule add_mono[rotated])
  also have "\<dots> < 2 ^ 55" by simp
  finally have b: "(?n div 10 ^ Suc (Suc k)) * 10 ^ Suc (Suc k) + 10 ^ Suc (Suc k) < 2 ^ 55" .
  have "?n mod 100 = 92" by simp
  then have f: "2 < ?n mod 10 ^ Suc (Suc k)" "?n mod 10 ^ Suc (Suc k) + 2 < 10 ^ Suc (Suc k)"
    using far_from_round_numbers by blast+
  have "shortest_from ?n (Suc (Suc k)) = shortest_from ?n (Suc k)"
    using b f by (rule shortest_from_skip)
  then show ?case using Suc by simp
qed

lemma shortest_decimal_example: "shortest_decimal 18014398509481992 = 18014398509481990"
proof -
  have "digits10 18014398509481992 = ''18014398509481992''"
    by (simp add: digits10.simps digit_char_def char_of_def bit_0)
  then have "length (digits10 18014398509481992) - 1 = Suc 15" by simp
  then show ?thesis unfolding shortest_decimal_def using search_example[of 15] by simp
qed

lemma format_example: "formatAmountInput (Num 18014398509481992) = ''18.014.398.509.481.990''"
  by (simp add: formatAmountInput_def toLocaleString_vi_def shortest_decimal_example digits_example group3_def)

section \<open>Executions before the load has returned\<close>

lemmas handler_defs =
  initData_resume_def handleInfoChange_def addTransaction_def updateTransaction_def
  removeTransaction_def amount_onChange_def handleReset_def handleVoiceForField_begin_def
  handleVoiceForField_resume_def handleVoiceForTransactionDesc_begin_def
  handleVoiceForTransactionDesc_resume_def handleSmartVoiceAdd_begin_def
  handleSmartVoiceAdd_resume_def handleError_def fire_timer_def
  setData_upd_def setData_saved_def setData_SAMPLE_def


lemma handle_waiting:
  assumes "\<not> is_load e" and "waiting s"
  shows "waiting (handle e s)"
  using assms
  by (cases e) (auto simp: waiting_def handler_defs Let_def split: sum.splits list.splits timer_action.splits if_splits)

lemma step_waiting:
  assumes "\<not> is_load e" and "waiting s"
  shows "waiting (step e s)"
proof -
  have w: "waiting (handle e s)" using assms by (rule handle_waiting)
  then have "save_effect (handle e s) = handle e s" by (simp add: save_effect_def waiting_def)
  then show ?thesis using w by (simp add: step_def rerender_def)
qed

lemma run_waiting:
  assumes "\<forall>e\<in>set es. \<not> is_load e" and "waiting s"
  shows "waiting (run es s)"
  using assms
proof (induction es arbitrary: s)
  case Nil
  then show ?case by (simp add: run_def)
next
  case (Cons e es)
  then have "waiting (step e s)" by (simp add: step_waiting)
  with Cons have "waiting (run es (step e s))" by simp
  then show ?case by (simp add: run_def)
qed

lemma waiting_init: "waiting init_state"
  by (simp add: waiting_def init_state_def)

lemma load_step:
  assumes "waiting s"
  shows "data (step (LoadResolved (Some d) k) s) = d"
    and "db_calls (step (LoadResolved (Some d) k) s) = db_calls s @ [SaveToDB d]"
    and "data (step (LoadResolved None k) s) = data s"
    and "db_calls (step (LoadResolved None k) s) = db_calls s @ [SaveToDB (data s)]"
  using assms
  by (simp_all add: waiting_def step_def rerender_def save_effect_def initData_resume_def setData_saved_def Let_def)

section \<open>The amount field: what is shown and what is stored\<close>

text \<open>
  C10. The amount display/parse pair is a round trip: for every non-negative integer \<open>a\<close>
  that a number of the host language can hold (a natural number that is its own nearest
  double, as every one below \<open>2 ^ 53\<close> is), \<open>parseAmountInput (formatAmountInput a) = a\<close>.
  What is shown are the shortest digits that read back as \<open>a\<close>, which above \<open>2 ^ 53\<close> need
  not be the digits of \<open>a\<close>: the round trip rests on their reading back, not on the
  digits being exact. The case of zero is in it: \<open>formatAmountInput 0\<close> is the empty
  string and \<open>parseAmountInput\<close> of the empty string is 0.
\<close>

theorem amount_roundtrip:
  assumes "to_double a = Num (int a)"
  shows "parseAmountInput (formatAmountInput (Num (int a))) = Num (int a)"
proof (cases "a = 0")
  case True
  then show ?thesis by (simp add: formatAmountInput_def parseAmountInput_clean)
next
  case False
  let ?shown = "digits10 (shortest_decimal a)"
  have fm: "formatAmountInput (Num (int a)) = group3 ?shown"
    using False by (simp add: formatAmountInput_def toLocaleString_vi_def)
  have nd: "filter (\<lambda>c. c \<noteq> CHR ''.'') ?shown = ?shown"
    by (simp add: filter_id_conv digits10_all_digits is_digit_not_dot)
  have "filter is_digit (filter (\<lambda>c. c \<noteq> CHR ''.'') (group3 ?shown)) = ?shown"
    by (simp add: filter_group3 nd filter_id_conv digits10_all_digits)
  moreover have "parseInt10 ?shown = to_double (shortest_decimal a)"
    using parseInt10_digits[of ?shown]
    by (simp add: digits10_nonempty digits10_all_digits dec_value_digits10)
  moreover have "to_double (shortest_decimal a) = Num (int a)"
    using assms by (rule shortest_decimal_reads_back)
  ultimately show ?thesis unfolding parseAmountInput_def fm by (simp add: isNaN_def)
qed

theorem amount_roundtrip_witness:
  "formatAmountInput (Num 1234567) = ''1.234.567''
   \<and> parseAmountInput (formatAmountInput (Num 1234567)) = Num 1234567
   \<and> formatAmountInput (Num 0) = [] \<and> parseAmountInput [] = Num 0
   \<and> parseAmountInput (formatAmountInput (Num 0)) = Num 0
   \<and> formatAmountInput (Num 18014398509481992) = ''18.014.398.509.481.990''
   \<and> parseAmountInput ''18.014.398.509.481.990'' = Num 18014398509481992"
proof -
  have a: "to_double 1234567 = Num (int 1234567)" by (rule to_double_exact) simp
  have b: "to_double 0 = Num (int 0)" by (rule to_double_exact) simp
  have c: "to_double 18014398509481992 = Num (int 18014398509481992)"
    using double_example by simp
  have "digits10 1234567 = ''1234567''"
    by (simp add: digits10.simps digit_char_def char_of_def bit_0)
  then have f: "formatAmountInput (Num 1234567) = ''1.234.567''"
    by (simp add: formatAmountInput_def toLocaleString_vi_def shortest_decimal_small group3_def)
  have g: "formatAmountInput (Num 18014398509481992) = ''18.014.398.509.481.990''"
    by (rule format_example)
  have "parseAmountInput (formatAmountInput (Num 18014398509481992)) = Num 18014398509481992"
    using amount_roundtrip[OF c] by simp
  then have h: "parseAmountInput ''18.014.398.509.481.990'' = Num 18014398509481992"
    unfolding g .
  show ?thesis
    using amount_roundtrip[OF a] amount_roundtrip[OF b] f g h
    by (simp add: formatAmountInput_def parseAmountInput_clean)
qed

text \<open>
  The claim C2 fails as it stands: a string with 309 digits or more can denote a number
  beyond the largest double, \<open>parseInt\<close> returns \<open>Infinity\<close> for it, the test \<open>isNaN\<close> lets
  it pass, and \<open>Infinity\<close> is what is stored.
\<close>

theorem amount_input_overflow_counterexample:
  "map amount (transactions (data (amount_onChange ''1'' (CHR ''2'' # replicate 308 (CHR ''0'')) init_state)))
     = [PosInf, Num 500000]"
  unfolding amount_onChange_transactions parseAmountInput_overflow_example
  by (simp add: init_state_def SAMPLE_DATA_def)

text \<open>
  C2, amended. Updating an amount through the amount input (\<open>parseAmountInput\<close>, then
  \<open>updateTransaction\<close> on the field \<open>amount\<close>) stores \<open>parseAmountInput v\<close> in every
  transaction of that id. For every string \<open>v\<close> whose digit characters denote a number
  below \<open>2 ^ 1024 - 2 ^ 970\<close>, the least number that no finite double is nearest to, and
  so for every string with at most 308 digit characters, this is a non-negative integer.
  The input \<open>1.234.567\<close> stores 1234567 and the input \<open>abc\<close> stores 0.
\<close>

theorem amount_input_stores_nonneg_integer:
  "(\<forall>t\<in>set (transactions (data (amount_onChange i v s))). id_tx t = i \<longrightarrow> amount t = parseAmountInput v)
   \<and> (dec_value (filter is_digit v) < 2 ^ 1024 - 2 ^ 970 \<longrightarrow> (\<exists>n\<ge>0. parseAmountInput v = Num n))
   \<and> (length (filter is_digit v) \<le> 308 \<longrightarrow> (\<exists>n\<ge>0. parseAmountInput v = Num n))
   \<and> parseAmountInput ''1.234.567'' = Num 1234567
   \<and> parseAmountInput ''abc'' = Num 0"
proof (intro conjI ballI impI)
  fix t assume "t \<in> set (transactions (data (amount_onChange i v s)))" and "id_tx t = i"
  then show "amount t = parseAmountInput v" by (rule upd_amount_stored)
next
  assume "dec_value (filter is_digit v) < 2 ^ 1024 - 2 ^ 970"
  then show "\<exists>n\<ge>0. parseAmountInput v = Num n" by (rule parseAmountInput_below_limit)
next
  assume "length (filter is_digit v) \<le> 308"
  then show "\<exists>n\<ge>0. parseAmountInput v = Num n" by (rule parseAmountInput_finite)
next
  show "parseAmountInput ''1.234.567'' = Num 1234567"
    by (simp add: parseAmountInput_clean is_digit_def dec_value_def digit_val_def to_double_def)
next
  show "parseAmountInput ''abc'' = Num 0"
    by (simp add: parseAmountInput_clean is_digit_def)
qed

theorem amount_input_stores_nonneg_integer_witness:
  "map amount (transactions (data (amount_onChange ''1'' ''1.234.567'' init_state)))
     = [Num 1234567, Num 500000]
   \<and> map amount (transactions (data (amount_onChange ''2'' ''abc'' init_state)))
     = [Num 2500000, Num 0]"
proof -
  have l: "length (filter is_digit ''1.234.567'') \<le> 308" by (simp add: is_digit_def)
  note t = amount_input_stores_nonneg_integer[of "''1''" "''1.234.567''" init_state]
  from t l obtain n where "0 \<le> n" and "parseAmountInput ''1.234.567'' = Num n" by blast
  moreover from t have p1: "parseAmountInput ''1.234.567'' = Num 1234567"
    and p2: "parseAmountInput ''abc'' = Num 0" by blast+
  ultimately have "n = 1234567" by simp
  show ?thesis
    unfolding amount_onChange_transactions p1 p2
    by (simp add: init_state_def SAMPLE_DATA_def)
qed

section \<open>Removing a transaction\<close>

lemma removeTransaction_data:
  "data (removeTransaction i s) = removeTransaction_upd i (data s)"
  by (simp add: removeTransaction_def setData_upd_def)

lemma filter_distinct_remove1:
  assumes "distinct (map f xs)" and "t \<in> set xs"
  shows "filter (\<lambda>x. f x \<noteq> f t) xs = remove1 t xs"
  using assms
proof (induction xs)
  case Nil
  then show ?case by simp
next
  case (Cons x xs)
  show ?case
  proof (cases "x = t")
    case True
    then have nt: "f t \<notin> f ` set xs" using Cons.prems(1) by simp
    have "\<forall>y\<in>set xs. f y \<noteq> f t"
    proof
      fix y assume "y \<in> set xs"
      then have "f y \<in> f ` set xs" by (rule imageI)
      with nt show "f y \<noteq> f t" by auto
    qed
    then have "filter (\<lambda>x. f x \<noteq> f t) xs = xs" by (simp add: filter_id_conv)
    with True show ?thesis by simp
  next
    case False
    then have "t \<in> set xs" using Cons.prems(2) by simp
    then have "f x \<noteq> f t" using Cons.prems(1) by auto
    moreover have "filter (\<lambda>x. f x \<noteq> f t) xs = remove1 t xs"
      using Cons.IH Cons.prems(1) \<open>t \<in> set xs\<close> by simp
    ultimately show ?thesis using False by simp
  qed
qed

text \<open>
  C8. For every document and every id, \<open>removeTransaction\<close> leaves the taxpayer info
  unchanged, leaves no transaction of that id, and leaves the transactions of every
  other id as they were and in their order. If no transaction has the id, the document
  is unchanged. Where the ids are pairwise distinct, exactly the one transaction of that
  id is deleted.
\<close>

theorem removeTransaction_exact:
  "info (data (removeTransaction i s)) = info (data s)
   \<and> filter (\<lambda>t. id_tx t = i) (transactions (data (removeTransaction i s))) = []
   \<and> filter (\<lambda>t. id_tx t \<noteq> i) (transactions (data (removeTransaction i s)))
       = filter (\<lambda>t. id_tx t \<noteq> i) (transactions (data s))
   \<and> subseq (transactions (data (removeTransaction i s))) (transactions (data s))
   \<and> ((\<forall>t\<in>set (transactions (data s)). id_tx t \<noteq> i) \<longrightarrow> data (removeTransaction i s) = data s)
   \<and> (distinct (map id_tx (transactions (data s))) \<longrightarrow> t \<in> set (transactions (data s)) \<longrightarrow> id_tx t = i
        \<longrightarrow> transactions (data (removeTransaction i s)) = remove1 t (transactions (data s)))"
proof (intro conjI impI)
  show "info (data (removeTransaction i s)) = info (data s)"
    by (simp add: removeTransaction_data removeTransaction_upd_def)
  show "filter (\<lambda>t. id_tx t = i) (transactions (data (removeTransaction i s))) = []"
    by (simp add: removeTransaction_data removeTransaction_upd_def)
  show "filter (\<lambda>t. id_tx t \<noteq> i) (transactions (data (removeTransaction i s)))
       = filter (\<lambda>t. id_tx t \<noteq> i) (transactions (data s))"
    by (simp add: removeTransaction_data removeTransaction_upd_def)
  show "subseq (transactions (data (removeTransaction i s))) (transactions (data s))"
    by (simp add: removeTransaction_data removeTransaction_upd_def)
next
  assume "\<forall>t\<in>set (transactions (data s)). id_tx t \<noteq> i"
  then have "filter (\<lambda>t. id_tx t \<noteq> i) (transactions (data s)) = transactions (data s)"
    by (simp add: filter_id_conv)
  then show "data (removeTransaction i s) = data s"
    by (simp add: removeTransaction_data removeTransaction_upd_def)
next
  assume "distinct (map id_tx (transactions (data s)))" and "t \<in> set (transactions (data s))"
    and "id_tx t = i"
  then show "transactions (data (removeTransaction i s)) = remove1 t (transactions (data s))"
    using filter_distinct_remove1[of id_tx "transactions (data s)" t]
    by (auto simp: removeTransaction_data removeTransaction_upd_def)
qed

theorem removeTransaction_exact_witness:
  "map id_tx (transactions (data (removeTransaction ''1'' init_state))) = [''2'']
   \<and> data (removeTransaction ''7'' init_state) = data init_state"
proof -
  let ?t = "hd (transactions (data init_state))"
  have d: "distinct (map id_tx (transactions (data init_state)))"
    by (simp add: init_state_def SAMPLE_DATA_def)
  have m: "?t \<in> set (transactions (data init_state))" and i: "id_tx ?t = ''1''"
    by (simp_all add: init_state_def SAMPLE_DATA_def)
  have n: "\<forall>t\<in>set (transactions (data init_state)). id_tx t \<noteq> ''7''"
    by (simp add: init_state_def SAMPLE_DATA_def)
  from removeTransaction_exact[of "''1''" init_state ?t] d m i
  have "transactions (data (removeTransaction ''1'' init_state)) = remove1 ?t (transactions (data init_state))"
    by blast
  moreover from removeTransaction_exact[of "''7''" init_state ?t] n
  have "data (removeTransaction ''7'' init_state) = data init_state" by blast
  ultimately show ?thesis by (simp add: init_state_def SAMPLE_DATA_def)
qed

section \<open>The ids of new transactions\<close>

text \<open>
  A new transaction keeps the ids of a document pairwise distinct when its id, the
  decimal digits of the clock, is not yet an id of the document; the transactions that
  were there stay in their order.
\<close>

lemma addTransaction_transactions:
  "transactions (data (addTransaction now today s)) =
     transactions (data s) @ [\<lparr>id_tx = digits10 now, date = today, description = [], amount = Num 0\<rparr>]"
  by (simp add: addTransaction_def setData_upd_def append_upd_def)

lemma addTransaction_fresh_distinct:
  assumes "distinct (map id_tx (transactions (data s)))"
    and "digits10 now \<notin> id_tx ` set (transactions (data s))"
  shows "distinct (map id_tx (transactions (data (addTransaction now today s))))"
  using assms by (simp add: addTransaction_transactions)

lemma addTransaction_prefix:
  "prefix (transactions (data s)) (transactions (data (addTransaction now today s)))"
  by (simp add: addTransaction_transactions)

text \<open>
  C1. The claim says that the ids stay pairwise unique under every sequence of
  \<open>addTransaction\<close>, \<open>removeTransaction\<close> and \<open>updateTransaction\<close> calls from the default
  sample document. The id of a new transaction is \<open>Date.now().toString()\<close>, so two
  transactions added within one millisecond get the same id: after two calls of
  \<open>addTransaction\<close> at the clock value 1700000000000 the document holds four
  transactions, and the last two share their id; so they do when one of the two is added
  by voice.
\<close>

theorem same_millisecond_ids_collide:
  "map id_tx (transactions (data (run [AddTransaction 1700000000000 ''15/11/2023'',
       AddTransaction 1700000000000 ''15/11/2023''] init_state)))
     = [''1'', ''2'', digits10 1700000000000, digits10 1700000000000]
   \<and> \<not> distinct (map id_tx (transactions (data (run [AddTransaction 1700000000000 ''15/11/2023'',
       AddTransaction 1700000000000 ''15/11/2023''] init_state))))
   \<and> \<not> distinct (map id_tx (transactions (data (run [SmartVoiceBegin ''UklGRg=='',
       AddTransaction 1700000000000 ''15/11/2023'',
       SmartVoiceResume (Inr \<lparr>p_date = None, p_description = None, p_amount = Some (Num 5000000)\<rparr>)
         1700000000000 ''15/11/2023''] init_state))))"
  by (simp add: run_def step_def rerender_def save_effect_def addTransaction_def setData_upd_def
      append_upd_def handleSmartVoiceAdd_begin_def handleSmartVoiceAdd_resume_def
      init_state_def SAMPLE_DATA_def)

section \<open>Adding a transaction by voice\<close>

lemma smart_add_transactions:
  "transactions (data (handleSmartVoiceAdd_resume (Inr r) now today s)) =
     transactions (data s) @
       [\<lparr>id_tx = digits10 now, date = or_string (p_date r) today,
         description = or_string (p_description r) new_description,
         amount = or_number (p_amount r) (Num 0)\<rparr>]"
  by (simp add: handleSmartVoiceAdd_resume_def setData_upd_def append_upd_def Let_def)

lemma smart_begin_data: "data (handleSmartVoiceAdd_begin a s) = data s"
  by (simp add: handleSmartVoiceAdd_begin_def)

lemma new_description_nonempty: "new_description \<noteq> []"
  by (simp add: new_description_def)

text \<open>
  C3. When the audio is not empty and \<open>parseTransactionFromAudio\<close> returns a result, the
  pipeline appends exactly one transaction. A date that the result omits is today's
  date, a description that it omits is the placeholder, which is not empty, and an
  amount that it omits is 0: no omitted field rejects the result. For the result that
  holds only the amount 5000000 the new transaction has today's date, the placeholder as
  its description and the amount 5000000.
\<close>

theorem smart_voice_defaults:
  assumes "audioBase64 \<noteq> []"
  shows "\<exists>t. transactions (data (handleSmartVoiceAdd_resume (Inr r) now today
                (handleSmartVoiceAdd_begin audioBase64 s))) = transactions (data s) @ [t]
           \<and> busy NewTransaction (handleSmartVoiceAdd_begin audioBase64 s)
           \<and> (p_date r = None \<longrightarrow> date t = today)
           \<and> (p_description r = None \<longrightarrow> description t = new_description \<and> description t \<noteq> [])
           \<and> (p_amount r = None \<longrightarrow> amount t = Num 0)
           \<and> (p_date r = None \<and> p_description r = None \<and> p_amount r = Some (Num 5000000) \<longrightarrow>
                t = \<lparr>id_tx = digits10 now, date = today, description = new_description,
                      amount = Num 5000000\<rparr>)"
  using assms
  by (simp add: smart_add_transactions smart_begin_data new_description_nonempty or_string_def
      or_number_def busy_def handleSmartVoiceAdd_begin_def)

theorem smart_voice_defaults_witness:
  "transactions (data (handleSmartVoiceAdd_resume
       (Inr \<lparr>p_date = None, p_description = None, p_amount = Some (Num 5000000)\<rparr>)
       1700000000000 ''05/10/2023'' (handleSmartVoiceAdd_begin ''UklGRg=='' init_state)))
     = transactions SAMPLE_DATA @
         [\<lparr>id_tx = digits10 1700000000000, date = ''05/10/2023'',
           description = new_description, amount = Num 5000000\<rparr>]"
proof -
  have a: "''UklGRg=='' \<noteq> []" by simp
  let ?r = "\<lparr>p_date = None, p_description = None, p_amount = Some (Num 5000000)\<rparr>"
  from smart_voice_defaults[OF a, of ?r 1700000000000 "''05/10/2023''" init_state]
  obtain t where t: "transactions (data (handleSmartVoiceAdd_resume (Inr ?r) 1700000000000 ''05/10/2023''
        (handleSmartVoiceAdd_begin ''UklGRg=='' init_state))) = transactions (data init_state) @ [t]"
    and "t = \<lparr>id_tx = digits10 1700000000000, date = ''05/10/2023'',
           description = new_description, amount = Num 5000000\<rparr>"
    by auto
  then show ?thesis by (simp add: init_state_def)
qed

section \<open>Failed transcription calls\<close>




section \<open>Capture requests for a busy target\<close>

text \<open>
  The claim C4 fails as it stands: the handlers do not look at what is busy. A second
  capture for the field \<open>name\<close>, asked for while the first one is under way, starts a
  second call, and the text that it returns is written to the ledger.
\<close>

theorem busy_capture_not_rejected_counterexample:
  "busy (InfoField Name) (run [VoiceFieldBegin Name] init_state)
   \<and> calls (run [VoiceFieldBegin Name, VoiceFieldBegin Name] init_state) = [InfoField Name, InfoField Name]
   \<and> name (info (data (run [VoiceFieldBegin Name, VoiceFieldBegin Name,
         VoiceFieldResume Name (Inr ''A''), VoiceFieldResume Name (Inr ''B'')] init_state))) = ''B''
   \<and> data (run [VoiceFieldBegin Name, VoiceFieldBegin Name,
         VoiceFieldResume Name (Inr ''A''), VoiceFieldResume Name (Inr ''B'')] init_state)
       \<noteq> data (run [VoiceFieldBegin Name, VoiceFieldResume Name (Inr ''A'')] init_state)"
  by (simp add: busy_def run_def step_def rerender_def save_effect_def handleVoiceForField_begin_def
      handleVoiceForField_resume_def handleInfoChange_def handleInfoChange_upd_def setData_upd_def
      init_state_def SAMPLE_DATA_def)

text \<open>
  C4, amended. A capture request is taken up whether or not its target is busy (the
  new-transaction request only when its audio is not empty): starting it leaves the
  ledger unchanged, marks the target as the one in processing and makes it busy. When
  its call returns, the ledger is unchanged if the call has failed or, for an info field
  or a description, has returned the empty text; a text that is not empty is written to
  the field or to the descriptions of the transactions of that id, and a parsed result
  appends a transaction.
\<close>

theorem capture_request_ledger_effect:
  "data (handleVoiceForField_begin f s) = data s
   \<and> busy (InfoField f) (handleVoiceForField_begin f s)
   \<and> processingField (handleVoiceForField_begin f s) = Some (key_name f)
   \<and> data (handleVoiceForField_resume f (Inl e) s) = data s
   \<and> data (handleVoiceForField_resume f (Inr []) s) = data s
   \<and> (text \<noteq> [] \<longrightarrow> data (handleVoiceForField_resume f (Inr text) s) = handleInfoChange_upd f text (data s))
   \<and> data (handleVoiceForTransactionDesc_begin i s) = data s
   \<and> busy (TransDesc i) (handleVoiceForTransactionDesc_begin i s)
   \<and> processingField (handleVoiceForTransactionDesc_begin i s) = Some (''trans-'' @ i)
   \<and> data (handleVoiceForTransactionDesc_resume i (Inl e) s) = data s
   \<and> data (handleVoiceForTransactionDesc_resume i (Inr []) s) = data s
   \<and> (text \<noteq> [] \<longrightarrow> data (handleVoiceForTransactionDesc_resume i (Inr text) s)
         = updateTransaction_upd i (SetDescription text) (data s))
   \<and> data (handleSmartVoiceAdd_begin a s) = data s
   \<and> (a \<noteq> [] \<longrightarrow> busy NewTransaction (handleSmartVoiceAdd_begin a s)
         \<and> isProcessingAI (handleSmartVoiceAdd_begin a s))
   \<and> handleSmartVoiceAdd_begin [] s = s
   \<and> data (handleSmartVoiceAdd_resume (Inl e) now today s) = data s
   \<and> length (transactions (data (handleSmartVoiceAdd_resume (Inr r) now today s)))
       = Suc (length (transactions (data s)))"
  by (simp add: busy_def handleVoiceForField_begin_def handleVoiceForField_resume_def handleInfoChange_def
      handleVoiceForTransactionDesc_begin_def handleVoiceForTransactionDesc_resume_def
      updateTransaction_def handleSmartVoiceAdd_begin_def handleSmartVoiceAdd_resume_def
      handleError_def setData_upd_def append_upd_def Let_def)

theorem capture_request_ledger_effect_witness:
  "name (info (data (handleVoiceForField_resume Name (Inr ''Tran Thi B'')
      (handleVoiceForField_begin Name (handleVoiceForField_begin Name init_state))))) = ''Tran Thi B''
   \<and> busy NewTransaction (handleSmartVoiceAdd_begin ''UklGRg=='' init_state)
   \<and> map description (transactions (data (handleVoiceForTransactionDesc_resume ''2'' (Inr ''Ban gao'')
        (handleVoiceForTransactionDesc_begin ''2'' init_state))))
       = [description (hd (transactions SAMPLE_DATA)), ''Ban gao'']"
proof -
  have t: "''Tran Thi B'' \<noteq> []" and u: "''Ban gao'' \<noteq> []" and a: "''UklGRg=='' \<noteq> []" by simp_all
  note c = capture_request_ledger_effect
  from c[of Name "handleVoiceForField_begin Name (handleVoiceForField_begin Name init_state)" _ "''Tran Thi B''"] t
  have 1: "data (handleVoiceForField_resume Name (Inr ''Tran Thi B'')
      (handleVoiceForField_begin Name (handleVoiceForField_begin Name init_state)))
      = handleInfoChange_upd Name ''Tran Thi B'' (data (handleVoiceForField_begin Name (handleVoiceForField_begin Name init_state)))"
    by blast
  from c[of Name init_state] c[of Name "handleVoiceForField_begin Name init_state"]
  have 2: "data (handleVoiceForField_begin Name (handleVoiceForField_begin Name init_state)) = data init_state"
    by simp
  from c[of _ init_state _ _ _ "''UklGRg==''"] a
  have 3: "busy NewTransaction (handleSmartVoiceAdd_begin ''UklGRg=='' init_state)" by blast
  from c[of _ "handleVoiceForTransactionDesc_begin ''2'' init_state" _ "''Ban gao''" "''2''"] u
  have 4: "data (handleVoiceForTransactionDesc_resume ''2'' (Inr ''Ban gao'') (handleVoiceForTransactionDesc_begin ''2'' init_state))
     = updateTransaction_upd ''2'' (SetDescription ''Ban gao'') (data (handleVoiceForTransactionDesc_begin ''2'' init_state))"
    by blast
  from c[of _ init_state _ _ "''2''"]
  have 5: "data (handleVoiceForTransactionDesc_begin ''2'' init_state) = data init_state" by blast
  show ?thesis unfolding 1 2 4 5 using 3
    by (simp add: handleInfoChange_upd_def updateTransaction_upd_def init_state_def SAMPLE_DATA_def)
qed

section \<open>No save before the load\<close>

text \<open>
  C5. In every execution, as long as \<open>loadFromDB\<close> has not returned, the component is
  not loaded and has called \<open>saveToDB\<close> not once, whatever the user has done. When the
  load returns a document, that document replaces the one in memory and is the first
  one saved; when it returns nothing, the document in memory is the first one saved.
\<close>

theorem no_save_before_load:
  assumes "\<forall>e\<in>set es. \<not> is_load e"
  shows "filter is_save (db_calls (run es init_state)) = []
    \<and> \<not> isLoaded (run es init_state)
    \<and> data (step (LoadResolved (Some d) k) (run es init_state)) = d
    \<and> db_calls (step (LoadResolved (Some d) k) (run es init_state))
        = db_calls (run es init_state) @ [SaveToDB d]
    \<and> data (step (LoadResolved None k) (run es init_state)) = data (run es init_state)
    \<and> db_calls (step (LoadResolved None k) (run es init_state))
        = db_calls (run es init_state) @ [SaveToDB (data (run es init_state))]"
proof -
  have w: "waiting (run es init_state)"
    using assms waiting_init by (rule run_waiting)
  then have "filter is_save (db_calls (run es init_state)) = []" and "\<not> isLoaded (run es init_state)"
    by (simp_all add: waiting_def filter_empty_conv)
  then show ?thesis using load_step[OF w] by simp
qed

theorem no_save_before_load_witness:
  "filter is_save (db_calls (run [AddTransaction 1700000000000 ''15/11/2023'', ConfirmReset True,
       InfoChange Name ''Tran Thi B''] init_state)) = []
   \<and> db_calls (step (LoadResolved (Some SAMPLE_DATA) False)
        (run [AddTransaction 1700000000000 ''15/11/2023'', ConfirmReset True,
          InfoChange Name ''Tran Thi B''] init_state))
      = [LoadFromDB, ClearDB True, SaveToDB SAMPLE_DATA]"
proof -
  let ?es = "[AddTransaction 1700000000000 ''15/11/2023'', ConfirmReset True, InfoChange Name ''Tran Thi B'']"
  have h: "\<forall>e\<in>set ?es. \<not> is_load e" by simp
  have c: "db_calls (run ?es init_state) = [LoadFromDB, ClearDB True]"
    by (simp add: run_def step_def rerender_def save_effect_def addTransaction_def handleReset_def
        handleInfoChange_def setData_upd_def setData_SAMPLE_def init_state_def)
  from no_save_before_load[OF h, of SAMPLE_DATA False] c show ?thesis by simp
qed

section \<open>Reset\<close>

text \<open>
  The claim C6 fails as it stands: when the document in memory is the constant
  \<open>SAMPLE_DATA\<close> itself (no edit since the start or since the last reset), the reset
  clears the store, \<open>setData(SAMPLE_DATA)\<close> changes nothing, no effect runs and nothing
  is saved: a load that follows returns nothing, not the default sample document.
\<close>

theorem reset_then_load_absent_counterexample:
  "data (run [LoadResolved None False, ConfirmReset True] init_state) = SAMPLE_DATA
   \<and> db_calls (run [LoadResolved None False, ConfirmReset True] init_state)
       = [LoadFromDB, SaveToDB SAMPLE_DATA, ClearDB True]
   \<and> loadFromDB (store_of None (run [LoadResolved None False, ConfirmReset True] init_state)) = None"
  by (simp add: run_def step_def rerender_def save_effect_def initData_resume_def handleReset_def
      setData_SAMPLE_def init_state_def store_of_def loadFromDB_def)

text \<open>
  C6, amended. A reset calls \<open>clearDB\<close>; when that call succeeds, the document in memory
  becomes the default sample document, and the default sample document is saved after
  the clear if the component is loaded and the document in memory was another object
  than \<open>SAMPLE_DATA\<close>. A load that follows returns the default sample document in that
  case and nothing otherwise, never an earlier state, so that a component that starts
  from it holds the default sample document. When the call fails, the reset changes
  nothing.
\<close>

theorem reset_restores_sample:
  "data (step (ConfirmReset True) s) = SAMPLE_DATA
   \<and> db_calls (step (ConfirmReset True) s)
       = db_calls s @ [ClearDB True] @ (if isLoaded s \<and> data_ref s \<noteq> 0 then [SaveToDB SAMPLE_DATA] else [])
   \<and> loadFromDB (store_of st (step (ConfirmReset True) s))
       = (if isLoaded s \<and> data_ref s \<noteq> 0 then Some SAMPLE_DATA else None)
   \<and> data (step (LoadResolved (loadFromDB (store_of st (step (ConfirmReset True) s))) k) init_state)
       = SAMPLE_DATA
   \<and> step (ConfirmReset False) s = s\<lparr>db_calls := db_calls s @ [ClearDB False]\<rparr>"
  by (simp add: step_def rerender_def save_effect_def handleReset_def setData_SAMPLE_def
      store_of_def loadFromDB_def initData_resume_def setData_saved_def init_state_def Let_def)

theorem reset_restores_sample_witness:
  "loadFromDB (store_of None (run [LoadResolved None False, RemoveTransaction ''1'', ConfirmReset True] init_state))
     = Some SAMPLE_DATA"
proof -
  let ?s = "run [LoadResolved None False, RemoveTransaction ''1''] init_state"
  have l: "isLoaded ?s \<and> data_ref ?s \<noteq> 0"
    by (simp add: run_def step_def rerender_def save_effect_def initData_resume_def
        removeTransaction_def setData_upd_def init_state_def)
  have r: "run [LoadResolved None False, RemoveTransaction ''1'', ConfirmReset True] init_state
      = step (ConfirmReset True) ?s" by (simp add: run_def)
  from reset_restores_sample[of ?s None] l show ?thesis unfolding r by simp
qed

end
